theory Spec2Isabelle
  imports Complex_Main "HOL-Library.Stream"
begin

section \<open>The snake game of streamlit\_snake\_app.py\<close>

text \<open>
  The theory embeds the class \<open>SnakeGame\<close> (construction, \<open>reset_game\<close>,
  \<open>generate_food\<close>, \<open>get_hand_direction\<close>, \<open>update\<close>) and the game part of
  \<open>VideoProcessor.recv\<close>. Positions and directions are pairs of Python integers,
  so pairs of \<open>int\<close>. Wall-clock time (\<open>time.time()\<close>) is read from the
  environment: every read is a parameter of the model, of type \<open>real\<close>, and the
  two thresholds are the decimal fractions the source writes; the rounding of Python's
  floats is not modelled. The module \<open>random\<close> is
  the second input from the environment: its state is a stream of natural numbers, kept
  in the game state, and every draw takes the next element.
\<close>

subsection \<open>Data\<close>

type_synonym pos = "int \<times> int"

datatype error = IndexError

record game =
  snake :: "pos list"
  direction :: pos
  food :: pos
  score :: int
  game_over :: bool
  last_update :: real
  last_direction_change :: real
  rng :: "nat stream"

text \<open>The attributes that \<open>__init__\<close> sets once and nothing changes afterwards.\<close>

definition width :: int where
  "width = 640"

definition height :: int where
  "height = 480"

definition grid_size :: int where
  "grid_size = 20"

definition game_speed :: real where
  "game_speed = 0.12"

definition direction_cooldown :: real where
  "direction_cooldown = 0.15"

definition dead_zone :: int where
  "dead_zone = 40"

subsection \<open>Food placement\<close>

text \<open>
  \<open>random.randint(a, b)\<close> returns some integer \<open>N\<close> with \<open>a \<le> N \<le> b\<close>. Which one
  is the environment's choice: the model reduces the next element of the stream into the
  range, so that every draw is in range and every value of the range can be drawn.
\<close>

definition randint :: "int \<Rightarrow> int \<Rightarrow> nat stream \<Rightarrow> int \<times> nat stream" where
  "randint a b rs = (a + int (shd rs mod nat (b - a + 1)), stl rs)"

text \<open>One pass through the body of the loop of \<open>generate_food\<close>: the candidate cell
  and the state of the generator after the two draws.\<close>

definition food_draw :: "nat stream \<Rightarrow> pos \<times> nat stream" where
  "food_draw rs =
     (let (nx, rs1) = randint 0 ((width - grid_size) div grid_size) rs;
          food_x = nx * grid_size;
          (ny, rs2) = randint 0 ((height - grid_size) div grid_size) rs1;
          food_y = ny * grid_size
      in ((food_x, food_y), rs2))"

text \<open>
  \<open>generate_food\<close> is a \<open>while True\<close> loop that is left only by the \<open>return\<close>:
  the value \<open>None\<close> of the model is the loop that never returns. It reads
  \<open>self.snake\<close> and the random generator.
\<close>

partial_function (option) generate_food :: "pos list \<Rightarrow> nat stream \<Rightarrow> (pos \<times> nat stream) option" where
  "generate_food sn rs =
     (let (food_pos, rs') = food_draw rs
      in if food_pos \<notin> set sn then Some (food_pos, rs') else generate_food sn rs')"

subsection \<open>Reset and construction\<close>

definition reset_game :: "real \<Rightarrow> game \<Rightarrow> game option" where
  "reset_game now g =
     (let g1 = g\<lparr>snake := [(width div 2, height div 2)]\<rparr>;
          g2 = g1\<lparr>direction := (grid_size, 0)\<rparr>
      in case generate_food (snake g2) (rng g2) of
           None \<Rightarrow> None
         | Some (f, rs') \<Rightarrow>
             Some (g2\<lparr>food := f, rng := rs', score := 0, game_over := False,
                      last_update := now\<rparr>))"

text \<open>
  \<open>SnakeGame()\<close>: \<open>reset_game\<close> runs on the fresh object, then the two timestamps
  are set. The three clock reads are \<open>t0\<close>, \<open>t1\<close> and \<open>t2\<close>. Every field of the
  fresh object below is overwritten before the constructor returns.
\<close>

definition fresh :: "nat stream \<Rightarrow> game" where
  "fresh rs = \<lparr>snake = [], direction = (0, 0), food = (0, 0), score = 0, game_over = False,
     last_update = 0, last_direction_change = 0, rng = rs\<rparr>"

definition new_game :: "nat stream \<Rightarrow> real \<Rightarrow> real \<Rightarrow> real \<Rightarrow> game option" where
  "new_game rs t0 t1 t2 =
     (case reset_game t0 (fresh rs) of
        None \<Rightarrow> None
      | Some g \<Rightarrow> Some (g\<lparr>last_direction_change := t1, last_update := t2\<rparr>))"

subsection \<open>The direction resolver\<close>

text \<open>
  \<open>get_hand_direction\<close> scales the fingertip landmark to the frame and truncates it to
  integers; the model starts from these integers \<open>(finger_x, finger_y)\<close>.
  \<open>self.snake[0]\<close> raises \<open>IndexError\<close> on an empty list.
\<close>

definition get_hand_direction :: "pos \<Rightarrow> game \<Rightarrow> error + pos" where
  "get_hand_direction finger g =
     (case snake g of
        [] \<Rightarrow> Inl IndexError
      | (head_x, head_y) # _ \<Rightarrow>
          (let dx = fst finger - head_x;
               dy = snd finger - head_y;
               reversal = (\<lambda>new_direction.
                 if (fst new_direction * - 1, snd new_direction * - 1) = direction g
                 then Inr (direction g) else Inr new_direction)
           in if \<bar>dx\<bar> > \<bar>dy\<bar> \<and> \<bar>dx\<bar> > dead_zone
              then reversal (if dx > 0 then (grid_size, 0) else (- grid_size, 0))
              else if \<bar>dy\<bar> > \<bar>dx\<bar> \<and> \<bar>dy\<bar> > dead_zone
              then reversal (if dy > 0 then (0, grid_size) else (0, - grid_size))
              else Inr (direction g)))"

subsection \<open>The tick\<close>

text \<open>
  \<open>update\<close> with the clock read \<open>current_time\<close>. The result is \<open>None\<close> when the
  call never returns (the food loop), \<open>Some (Inl e)\<close> when it raises and
  \<open>Some (Inr g')\<close> when it returns, leaving the object in state \<open>g'\<close>.
\<close>

definition update :: "real \<Rightarrow> game \<Rightarrow> (error + game) option" where
  "update current_time g =
     (if game_over g then Some (Inr g)
      else if current_time - last_update g < game_speed then Some (Inr g)
      else
        (let g1 = g\<lparr>last_update := current_time\<rparr> in
         case snake g1 of
           [] \<Rightarrow> Some (Inl IndexError)
         | (head_x, head_y) # _ \<Rightarrow>
             (let new_head = (head_x + fst (direction g1), head_y + snd (direction g1)) in
              if fst new_head < 0 \<or> fst new_head \<ge> width \<or>
                 snd new_head < 0 \<or> snd new_head \<ge> height \<or>
                 new_head \<in> set (tl (snake g1))
              then Some (Inr (g1\<lparr>game_over := True\<rparr>))
              else
                (let g2 = g1\<lparr>snake := new_head # snake g1\<rparr> in
                 if new_head = food g2
                 then
                   (let g3 = g2\<lparr>score := score g2 + 10\<rparr> in
                    case generate_food (snake g3) (rng g3) of
                      None \<Rightarrow> None
                    | Some (f, rs') \<Rightarrow> Some (Inr (g3\<lparr>food := f, rng := rs'\<rparr>)))
                 else Some (Inr (g2\<lparr>snake := butlast (snake g2)\<rparr>))))))"

text \<open>A sequence of calls of \<open>update\<close>, one per clock read; it stops at the first call
  that raises or does not return.\<close>

fun updates :: "real list \<Rightarrow> game \<Rightarrow> (error + game) option" where
  "updates [] g = Some (Inr g)"
| "updates (t # ts) g =
     (case update t g of
        Some (Inr g') \<Rightarrow> updates ts g'
      | r \<Rightarrow> r)"

subsection \<open>The frame callback\<close>

text \<open>
  \<open>VideoProcessor.recv\<close> without the image work. \<open>results.multi_hand_landmarks\<close> is
  the list of detected hands; each iteration of the loop reads the clock and, when the
  cooldown has passed, resolves the hand's fingertip: an element of \<open>hands\<close> is the
  clock read of the iteration with the fingertip in pixels.
\<close>

definition hand_step :: "real \<times> pos \<Rightarrow> game \<Rightarrow> error + game" where
  "hand_step h g =
     (let current_time = fst h in
      if current_time - last_direction_change g > direction_cooldown
      then
        (case get_hand_direction (snd h) g of
           Inl e \<Rightarrow> Inl e
         | Inr new_direction \<Rightarrow>
             if new_direction \<noteq> direction g
             then Inr (g\<lparr>direction := new_direction, last_direction_change := current_time\<rparr>)
             else Inr g)
      else Inr g)"

fun hand_loop :: "(real \<times> pos) list \<Rightarrow> game \<Rightarrow> error + game" where
  "hand_loop [] g = Inr g"
| "hand_loop (h # hs) g =
     (case hand_step h g of
        Inl e \<Rightarrow> Inl e
      | Inr g' \<Rightarrow> hand_loop hs g')"

definition recv :: "(real \<times> pos) list \<Rightarrow> real \<Rightarrow> game \<Rightarrow> (error + game) option" where
  "recv hands now g =
     (case (if hands \<noteq> [] \<and> \<not> game_over g then hand_loop hands g else Inr g) of
        Inl e \<Rightarrow> Some (Inl e)
      | Inr g' \<Rightarrow> update now g')"

subsection \<open>Reachable states\<close>

text \<open>
  The states in which a call can find the game: the constructor has returned, and then
  frames, ticks and restarts (the button calls \<open>reset_game\<close>) have returned, in any
  order and at any clock reads.
\<close>

inductive reachable :: "game \<Rightarrow> bool" where
  r_new: "new_game rs t0 t1 t2 = Some g \<Longrightarrow> reachable g"
| r_reset: "reachable g \<Longrightarrow> reset_game now g = Some g' \<Longrightarrow> reachable g'"
| r_update: "reachable g \<Longrightarrow> update now g = Some (Inr g') \<Longrightarrow> reachable g'"
| r_recv: "reachable g \<Longrightarrow> recv hands now g = Some (Inr g') \<Longrightarrow> reachable g'"

subsection \<open>Auxiliary notions for the statements\<close>

text \<open>The cell and generator state that the \<open>n\<close>-th pass of the food loop computes.\<close>

fun nth_draw :: "nat \<Rightarrow> nat stream \<Rightarrow> pos \<times> nat stream" where
  "nth_draw 0 rs = food_draw rs"
| "nth_draw (Suc n) rs = nth_draw n (snd (food_draw rs))"

text \<open>Some pass of the food loop draws a cell that is not on the snake.\<close>

definition free_draw :: "pos list \<Rightarrow> nat stream \<Rightarrow> bool" where
  "free_draw sn rs = (\<exists>n. fst (nth_draw n rs) \<notin> set sn)"

text \<open>A position inside the board and aligned to the grid.\<close>

definition in_grid :: "pos \<Rightarrow> bool" where
  "in_grid p = (0 \<le> fst p \<and> fst p < width \<and> 0 \<le> snd p \<and> snd p < height \<and>
     fst p mod grid_size = 0 \<and> snd p mod grid_size = 0)"

text \<open>A snake that covers the board: down the even columns, up the odd ones.\<close>

definition full_snake :: "pos list" where
  "full_snake = concat (map (\<lambda>x. map (\<lambda>y. (x * grid_size, y * grid_size))
      (if even x then [0..23] else rev [0..23])) [0..31])"

text \<open>The state that \<open>SnakeGame()\<close> returns when every clock read is 0 and the generator
  only yields 0, so that the food lands on the cell \<open>(0, 0)\<close>.\<close>

definition start :: game where
  "start = \<lparr>snake = [(320, 240)], direction = (20, 0), food = (0, 0), score = 0,
     game_over = False, last_update = 0, last_direction_change = 0, rng = sconst 0\<rparr>"

text \<open>The cell that a due tick computes as \<open>new_head\<close> (on a snake that is not empty),
  and the test that makes the tick end the game.\<close>

definition new_head_of :: "game \<Rightarrow> pos" where
  "new_head_of g = (fst (hd (snake g)) + fst (direction g), snd (hd (snake g)) + snd (direction g))"

definition collides :: "game \<Rightarrow> bool" where
  "collides g = (fst (new_head_of g) < 0 \<or> fst (new_head_of g) \<ge> width \<or>
     snd (new_head_of g) < 0 \<or> snd (new_head_of g) \<ge> height \<or>
     new_head_of g \<in> set (tl (snake g)))"

text \<open>A sequence of frames: each is the list of hands that \<open>recv\<close> finds, with the clock
  read of the tick that ends the callback.\<close>

fun frames :: "((real \<times> pos) list \<times> real) list \<Rightarrow> game \<Rightarrow> (error + game) option" where
  "frames [] g = Some (Inr g)"
| "frames (f # fs) g =
     (case recv (fst f) (snd f) g of
        Some (Inr g') \<Rightarrow> frames fs g'
      | r \<Rightarrow> r)"

text \<open>A snake of four segments on a square, about to move down into the cell of its tail;
  the food is elsewhere.\<close>

definition square :: game where
  "square = \<lparr>snake = [(320, 240), (340, 240), (340, 260), (320, 260)], direction = (0, 20),
     food = (0, 0), score = 30, game_over = False, last_update = 0, last_direction_change = 0,
     rng = sconst 0\<rparr>"

text \<open>A snake of one segment with the food on the cell to its right.\<close>

definition fed :: game where
  "fed = \<lparr>snake = [(320, 240)], direction = (20, 0), food = (340, 240), score = 0,
     game_over = False, last_update = 0, last_direction_change = 0, rng = sconst 0\<rparr>"

text \<open>A game that ended at the left wall.\<close>

definition crashed :: game where
  "crashed = \<lparr>snake = [(0, 240)], direction = (- 20, 0), food = (0, 0), score = 0,
     game_over = True, last_update = 1, last_direction_change = 0, rng = sconst 0\<rparr>"

text \<open>The game \<open>crashed\<close> after a restart at clock read 1.05, when its last direction
  change was at 1.\<close>

definition restarted :: game where
  "restarted = \<lparr>snake = [(320, 240)], direction = (20, 0), food = (0, 0), score = 0,
     game_over = False, last_update = 1.05, last_direction_change = 1, rng = sconst 0\<rparr>"

text \<open>The four directions, and what every reachable state satisfies.\<close>

definition cardinal :: "pos \<Rightarrow> bool" where
  "cardinal d = (d = (grid_size, 0) \<or> d = (- grid_size, 0) \<or> d = (0, grid_size) \<or>
     d = (0, - grid_size))"

definition game_inv :: "game \<Rightarrow> bool" where
  "game_inv g = (snake g \<noteq> [] \<and> (\<forall>p\<in>set (snake g). in_grid p) \<and> distinct (snake g) \<and>
     cardinal (direction g) \<and> score g = 10 * (int (length (snake g)) - 1))"

text \<open>The game \<open>fed\<close> after the tick at clock read 1 that eats the food.\<close>

definition grown :: game where
  "grown = \<lparr>snake = [(340, 240), (320, 240)], direction = (20, 0), food = (0, 0), score = 10,
     game_over = False, last_update = 1, last_direction_change = 0, rng = sconst 0\<rparr>"

text \<open>The running game one tick before the board is full: the snake covers every cell but
  \<open>(0, 0)\<close>, its head is on \<open>(0, 20)\<close> heading up, and the food is on \<open>(0, 0)\<close>.\<close>

definition last_cell :: game where
  "last_cell = \<lparr>snake = tl full_snake, direction = (0, - 20), food = (0, 0), score = 7660,
     game_over = False, last_update = 0, last_direction_change = 0, rng = sconst 0\<rparr>"

section \<open>Food placement\<close>

lemma generate_food_first:
  "fst (nth_draw n rs) \<notin> set sn \<Longrightarrow> (\<forall>m<n. fst (nth_draw m rs) \<in> set sn) \<Longrightarrow>
   generate_food sn rs = Some (nth_draw n rs)"
proof (induction n arbitrary: rs)
  case 0
  then show ?case
    by (subst generate_food.simps) (simp add: split_beta)
next
  case (Suc n)
  have occ: "fst (food_draw rs) \<in> set sn"
    using Suc.prems(2) [rule_format, of 0] by simp
  have later: "\<forall>m<n. fst (nth_draw m (snd (food_draw rs))) \<in> set sn"
    using Suc.prems(2) by (metis Suc_less_eq nth_draw.simps(2))
  have "generate_food sn (snd (food_draw rs)) = Some (nth_draw n (snd (food_draw rs)))"
    using Suc.IH [of "snd (food_draw rs)"] Suc.prems(1) later by simp
  then show ?case
    using occ by (subst generate_food.simps) (simp add: split_beta)
qed

lemma generate_food_returned:
  "generate_food sn rs = Some r \<Longrightarrow>
   \<exists>n. nth_draw n rs = r \<and> fst r \<notin> set sn \<and> (\<forall>m<n. fst (nth_draw m rs) \<in> set sn)"
proof (induction rule: generate_food.raw_induct [rotated 1, consumes 1])
  case (1 gf sn rs r)
  show ?case
  proof (cases "fst (food_draw rs) \<in> set sn")
    case False
    then have "r = food_draw rs"
      using "1.hyps" by (simp add: split_beta)
    then have "nth_draw 0 rs = r \<and> fst r \<notin> set sn \<and> (\<forall>m<0. fst (nth_draw m rs) \<in> set sn)"
      using False by simp
    then show ?thesis by blast
  next
    case True
    then have "gf sn (snd (food_draw rs)) = Some r"
      using "1.hyps" by (simp add: split_beta)
    then obtain n where n: "nth_draw n (snd (food_draw rs)) = r" "fst r \<notin> set sn"
      "\<forall>m<n. fst (nth_draw m (snd (food_draw rs))) \<in> set sn"
      using "1.IH" by blast
    have "\<forall>m<Suc n. fst (nth_draw m rs) \<in> set sn"
    proof (intro allI impI)
      fix m assume "m < Suc n"
      then show "fst (nth_draw m rs) \<in> set sn"
        using True n(3) by (cases m) auto
    qed
    then have "nth_draw (Suc n) rs = r \<and> fst r \<notin> set sn \<and> (\<forall>m<Suc n. fst (nth_draw m rs) \<in> set sn)"
      using n by simp
    then show ?thesis by blast
  qed
qed

lemma generate_food_None_iff:
  "generate_food sn rs = None \<longleftrightarrow> \<not> free_draw sn rs"
proof
  assume none: "generate_food sn rs = None"
  show "\<not> free_draw sn rs"
  proof
    assume "free_draw sn rs"
    then obtain n where "fst (nth_draw n rs) \<notin> set sn" by (auto simp: free_draw_def)
    then obtain k where k: "fst (nth_draw k rs) \<notin> set sn" "\<forall>m<k. fst (nth_draw m rs) \<in> set sn"
      using exists_least_iff [of "\<lambda>n. fst (nth_draw n rs) \<notin> set sn"] by blast
    then show False using generate_food_first [OF k] none by simp
  qed
next
  assume nf: "\<not> free_draw sn rs"
  show "generate_food sn rs = None"
  proof (cases "generate_food sn rs")
    case (Some r)
    then show ?thesis using generate_food_returned [OF Some] nf by (auto simp: free_draw_def)
  qed simp
qed

lemma food_draw_range:
  "\<exists>a b. fst (food_draw rs) = (a * grid_size, b * grid_size) \<and> 0 \<le> a \<and> a \<le> 31 \<and> 0 \<le> b \<and> b \<le> 23"
proof -
  let ?a = "int (shd rs mod 32)" and ?b = "int (shd (stl rs) mod 24)"
  have "fst (food_draw rs) = (?a * grid_size, ?b * grid_size)"
    by (simp add: food_draw_def randint_def width_def height_def grid_size_def)
  moreover have "0 \<le> ?a \<and> ?a \<le> 31 \<and> 0 \<le> ?b \<and> ?b \<le> 23"
    by (simp add: less_Suc_eq_le [symmetric]) 
  ultimately show ?thesis by blast
qed

lemma food_draw_in_grid: "in_grid (fst (food_draw rs))"
proof -
  obtain a b where ab: "fst (food_draw rs) = (a * grid_size, b * grid_size)"
    "0 \<le> a" "a \<le> 31" "0 \<le> b" "b \<le> 23"
    using food_draw_range by blast
  then show ?thesis
    by (simp add: in_grid_def width_def height_def grid_size_def)
qed

lemma nth_draw_in_grid: "in_grid (fst (nth_draw n rs))"
  by (induction n arbitrary: rs) (simp_all add: food_draw_in_grid)

lemma full_snake_cell:
  "0 \<le> a \<Longrightarrow> a \<le> 31 \<Longrightarrow> 0 \<le> b \<Longrightarrow> b \<le> 23 \<Longrightarrow> (a * grid_size, b * grid_size) \<in> set full_snake"
  by (auto simp: full_snake_def intro!: bexI [of _ a] image_eqI [of _ _ b])

lemma full_snake_draw: "fst (food_draw rs) \<in> set full_snake"
  using food_draw_range [of rs] full_snake_cell by metis

lemma full_snake_nth_draw: "fst (nth_draw n rs) \<in> set full_snake"
  by (induction n arbitrary: rs) (simp_all add: full_snake_draw)

lemma full_snake_no_free_draw: "\<not> free_draw full_snake rs"
  by (simp add: free_draw_def full_snake_nth_draw)

lemma food_draw_sconst0: "food_draw (sconst 0) = ((0, 0), sconst 0)"
  by (simp add: food_draw_def randint_def width_def height_def grid_size_def)

lemma generate_food_sconst0:
  "(0, 0) \<notin> set sn \<Longrightarrow> generate_food sn (sconst 0) = Some ((0, 0), sconst 0)"
  by (subst generate_food.simps) (simp add: food_draw_sconst0)

lemma new_game_start: "new_game (sconst 0) 0 0 0 = Some start"
  by (simp add: new_game_def reset_game_def fresh_def generate_food_sconst0 start_def
      width_def height_def grid_size_def)

text \<open>
  C2, as the code has it: \<open>generate_food\<close> returns exactly when some pass of its loop
  draws a cell that the snake does not occupy; it then returns the first such cell, which
  lies inside the board, on the grid and off the snake. No error is ever reported: when
  no pass draws a free cell, and so whenever the snake covers the whole board, the call
  never returns.
\<close>

theorem generate_food_result:
  "(free_draw sn rs \<longrightarrow>
      (\<exists>n. generate_food sn rs = Some (nth_draw n rs) \<and> fst (nth_draw n rs) \<notin> set sn \<and>
           in_grid (fst (nth_draw n rs)) \<and> (\<forall>m<n. fst (nth_draw m rs) \<in> set sn))) \<and>
   (\<not> free_draw sn rs \<longrightarrow> generate_food sn rs = None) \<and>
   (set full_snake \<subseteq> set sn \<longrightarrow> generate_food sn rs = None)"
proof (intro conjI impI)
  assume "free_draw sn rs"
  then have "generate_food sn rs \<noteq> None" by (simp add: generate_food_None_iff)
  then obtain r where r: "generate_food sn rs = Some r" by blast
  from generate_food_returned [OF r] obtain n where
    "nth_draw n rs = r" "fst r \<notin> set sn" "\<forall>m<n. fst (nth_draw m rs) \<in> set sn" by blast
  then have "generate_food sn rs = Some (nth_draw n rs) \<and> fst (nth_draw n rs) \<notin> set sn \<and>
     in_grid (fst (nth_draw n rs)) \<and> (\<forall>m<n. fst (nth_draw m rs) \<in> set sn)"
    using r nth_draw_in_grid [of n rs] by auto
  then show "\<exists>n. generate_food sn rs = Some (nth_draw n rs) \<and> fst (nth_draw n rs) \<notin> set sn \<and>
     in_grid (fst (nth_draw n rs)) \<and> (\<forall>m<n. fst (nth_draw m rs) \<in> set sn)" ..
next
  assume "\<not> free_draw sn rs"
  then show "generate_food sn rs = None" by (simp add: generate_food_None_iff)
next
  assume "set full_snake \<subseteq> set sn"
  then have "\<not> free_draw sn rs"
    using full_snake_nth_draw by (auto simp: free_draw_def)
  then show "generate_food sn rs = None" by (simp add: generate_food_None_iff)
qed

theorem generate_food_result_witness:
  "free_draw [(320, 240)] (sconst 0) \<and>
   (\<exists>n. generate_food [(320, 240)] (sconst 0) = Some (nth_draw n (sconst 0)) \<and>
        fst (nth_draw n (sconst 0)) \<notin> set [(320, 240)]) \<and>
   set full_snake \<subseteq> set full_snake \<and> generate_food full_snake (sconst 0) = None"
proof -
  have "fst (nth_draw 0 (sconst 0)) \<notin> set [(320, 240)]"
    by (simp add: food_draw_sconst0)
  then have f: "free_draw [(320, 240)] (sconst 0)"
    unfolding free_draw_def by blast
  show ?thesis
    using f generate_food_result [of "[(320, 240)]" "sconst 0"]
      generate_food_result [of full_snake "sconst 0"]
    by blast
qed

text \<open>
  C2 as stated fails: on a snake that occupies every cell of the board the loop of
  \<open>generate_food\<close> never returns and reports nothing.
\<close>

theorem generate_food_full_board_diverges: "generate_food full_snake (sconst 0) = None"
  by (simp only: generate_food_None_iff full_snake_no_free_draw not_False_eq_True)

section \<open>The direction resolver\<close>

text \<open>
  C6: with \<open>dx\<close>, \<open>dy\<close> the displacement of the fingertip from the head, the resolver
  returns the current direction whenever both \<open>|dx|\<close> and \<open>|dy|\<close> are at most 40 or
  \<open>|dx| = |dy|\<close>; any other answer needs one axis strictly larger than the other and
  strictly larger than 40.
\<close>

theorem dead_zone_no_change:
  assumes "snake g = (head_x, head_y) # body"
  shows "((\<bar>fst finger - head_x\<bar> \<le> 40 \<and> \<bar>snd finger - head_y\<bar> \<le> 40) \<or>
          \<bar>fst finger - head_x\<bar> = \<bar>snd finger - head_y\<bar>
          \<longrightarrow> get_hand_direction finger g = Inr (direction g)) \<and>
         (get_hand_direction finger g \<noteq> Inr (direction g)
          \<longrightarrow> (\<bar>fst finger - head_x\<bar> > \<bar>snd finger - head_y\<bar> \<and> \<bar>fst finger - head_x\<bar> > 40) \<or>
              (\<bar>snd finger - head_y\<bar> > \<bar>fst finger - head_x\<bar> \<and> \<bar>snd finger - head_y\<bar> > 40))"
  using assms by (auto simp: get_hand_direction_def dead_zone_def Let_def)

theorem dead_zone_no_change_witness:
  "snake start = (320, 240) # [] \<and>
   get_hand_direction (330, 245) start = Inr (direction start) \<and>
   get_hand_direction (360, 240) start = Inr (direction start) \<and>
   get_hand_direction (400, 320) start = Inr (direction start)"
proof -
  have s: "snake start = (320, 240) # []" by (simp add: start_def)
  show ?thesis
    using s dead_zone_no_change [OF s, of "(330, 245)"] dead_zone_no_change [OF s, of "(360, 240)"]
      dead_zone_no_change [OF s, of "(400, 320)"]
    by simp
qed

section \<open>The tick, case by case\<close>

lemma update_over: "game_over g \<Longrightarrow> update t g = Some (Inr g)"
  by (simp add: update_def)

lemma update_early: "t - last_update g < game_speed \<Longrightarrow> update t g = Some (Inr g)"
  by (simp add: update_def)

lemma update_empty:
  "\<not> game_over g \<Longrightarrow> game_speed \<le> t - last_update g \<Longrightarrow> snake g = [] \<Longrightarrow>
   update t g = Some (Inl IndexError)"
  by (simp add: update_def)

lemma update_collide:
  "\<not> game_over g \<Longrightarrow> game_speed \<le> t - last_update g \<Longrightarrow> snake g \<noteq> [] \<Longrightarrow> collides g \<Longrightarrow>
   update t g = Some (Inr (g\<lparr>last_update := t, game_over := True\<rparr>))"
  by (cases "snake g") (auto simp: update_def collides_def new_head_of_def Let_def split: prod.splits)

lemma update_move:
  "\<not> game_over g \<Longrightarrow> game_speed \<le> t - last_update g \<Longrightarrow> snake g \<noteq> [] \<Longrightarrow> \<not> collides g \<Longrightarrow>
   new_head_of g \<noteq> food g \<Longrightarrow>
   update t g = Some (Inr (g\<lparr>last_update := t, snake := new_head_of g # butlast (snake g)\<rparr>))"
  by (cases "snake g") (auto simp: update_def collides_def new_head_of_def Let_def split: prod.splits)

lemma update_eat:
  "\<not> game_over g \<Longrightarrow> game_speed \<le> t - last_update g \<Longrightarrow> snake g \<noteq> [] \<Longrightarrow> \<not> collides g \<Longrightarrow>
   new_head_of g = food g \<Longrightarrow>
   update t g =
     (case generate_food (food g # snake g) (rng g) of
        None \<Rightarrow> None
      | Some (f, rs') \<Rightarrow>
          Some (Inr (g\<lparr>last_update := t, snake := food g # snake g, score := score g + 10,
                       food := f, rng := rs'\<rparr>)))"
  by (cases "snake g")
    (auto simp: update_def collides_def new_head_of_def Let_def split: prod.splits option.splits)

lemma updates_early:
  "\<forall>t\<in>set ts. t - last_update g < game_speed \<Longrightarrow> updates ts g = Some (Inr g)"
  by (induction ts) (simp_all add: update_early)

lemma updates_over: "game_over g \<Longrightarrow> updates ts g = Some (Inr g)"
  by (induction ts) (simp_all add: update_over)

lemma recv_over: "game_over g \<Longrightarrow> recv hands now g = Some (Inr g)"
  by (simp add: recv_def update_over)

lemma frames_over: "game_over g \<Longrightarrow> frames fs g = Some (Inr g)"
  by (induction fs) (simp_all add: recv_over)

lemma reset_game_result:
  "reset_game now g =
     (case generate_food [(320, 240)] (rng g) of
        None \<Rightarrow> None
      | Some (f, rs') \<Rightarrow>
          Some (g\<lparr>snake := [(320, 240)], direction := (20, 0), food := f, rng := rs', score := 0,
                 game_over := False, last_update := now\<rparr>))"
  by (simp add: reset_game_def width_def height_def grid_size_def)

lemma reset_game_returns:
  "(\<exists>g'. reset_game now g = Some g') \<longleftrightarrow> free_draw [(320, 240)] (rng g)"
  using generate_food_None_iff [of "[(320, 240)]" "rng g"]
  by (auto simp: reset_game_result split: option.splits)

lemma free_draw_sconst0: "(0, 0) \<notin> set sn \<Longrightarrow> free_draw sn (sconst 0)"
proof -
  assume "(0, 0) \<notin> set sn"
  then have "fst (nth_draw 0 (sconst 0)) \<notin> set sn" by (simp add: food_draw_sconst0)
  then show ?thesis unfolding free_draw_def by blast
qed

text \<open>The tick of \<open>last_cell\<close> eats the food on the last free cell; the food loop then
  finds the board covered, and the tick never returns.\<close>

lemma full_snake_unfold:
  "full_snake = (0, 0) # (0, 20) #
     (map (\<lambda>y. (0, y * grid_size)) [2..23] @
      concat (map (\<lambda>x. map (\<lambda>y. (x * grid_size, y * grid_size))
        (if even x then [0..23] else rev [0..23])) [1..31]))"
proof -
  have a: "[0..31::int] = 0 # [1..31]"
    by (subst upto_rec1) simp_all
  have b: "[0..23::int] = 0 # 1 # [2..23]"
    by (subst upto_rec1, simp, subst upto_rec1) simp_all
  have "full_snake = map (\<lambda>y. (0 * grid_size, y * grid_size)) [0..23] @
      concat (map (\<lambda>x. map (\<lambda>y. (x * grid_size, y * grid_size))
        (if even x then [0..23] else rev [0..23])) [1..31])"
    unfolding full_snake_def by (simp only: a list.map concat.simps even_zero if_True)
  also have "map (\<lambda>y. (0 * grid_size, y * grid_size)) [0..23]
      = (0, 0) # (0, 20) # map (\<lambda>y. (0, y * grid_size)) [2..23]"
    by (simp only: b list.map mult_zero_left) (simp add: grid_size_def del: upto_rec_numeral)
  finally show ?thesis by (simp only: append_Cons)
qed

lemma last_cell_snake:
  "snake last_cell = (0, 20) #
     (map (\<lambda>y. (0, y * grid_size)) [2..23] @
      concat (map (\<lambda>x. map (\<lambda>y. (x * grid_size, y * grid_size))
        (if even x then [0..23] else rev [0..23])) [1..31]))"
  by (simp only: last_cell_def game.simps full_snake_unfold list.sel)

lemma last_cell_food_free: "(0, 0) \<notin> set (snake last_cell)"
  unfolding last_cell_snake
  by (auto simp: grid_size_def simp del: upto_rec_numeral)

lemma last_cell_covers: "food last_cell # snake last_cell = full_snake"
proof -
  have "full_snake = (0, 0) # tl full_snake"
    by (subst (1 2) full_snake_unfold) (simp only: list.sel)
  then show ?thesis by (simp add: last_cell_def)
qed

lemma last_cell_update: "update 1 last_cell = None"
proof -
  have run: "\<not> game_over last_cell" by (simp add: last_cell_def)
  have due: "game_speed \<le> 1 - last_update last_cell" by (simp add: last_cell_def game_speed_def)
  have ne: "snake last_cell \<noteq> []" by (simp only: last_cell_snake) simp
  have hd: "hd (snake last_cell) = (0, 20)" by (simp only: last_cell_snake list.sel)
  have dir: "direction last_cell = (0, - 20)" "food last_cell = (0, 0)"
    by (simp_all add: last_cell_def)
  have nh: "new_head_of last_cell = food last_cell"
    by (simp add: new_head_of_def hd dir)
  have "set (tl (snake last_cell)) \<subseteq> set (snake last_cell)"
    using ne by (cases "snake last_cell") auto
  then have "(0, 0) \<notin> set (tl (snake last_cell))"
    using last_cell_food_free by blast
  then have nc: "\<not> collides last_cell"
    by (simp add: collides_def nh dir width_def height_def)
  have "generate_food full_snake (rng last_cell) = None"
    using generate_food_None_iff full_snake_no_free_draw by blast
  then show ?thesis
    using update_eat [OF run due ne nc nh] by (simp add: last_cell_covers)
qed

section \<open>Collisions\<close>

text \<open>
  C1, as the code has it: in a running game with a due tick, moving the head into any
  segment behind the head sets \<open>game_over\<close>, and the current tail cell is one of them,
  also when no food is eaten and the tail would have moved away. A tick that returns has
  set \<open>game_over\<close> exactly when the new head left the board or hit such a segment.
\<close>

theorem body_collision:
  assumes "\<not> game_over g" and "game_speed \<le> now - last_update g"
    and "snake g = (head_x, head_y) # body"
  shows "((head_x + fst (direction g), head_y + snd (direction g)) \<in> set body
          \<longrightarrow> update now g = Some (Inr (g\<lparr>last_update := now, game_over := True\<rparr>))) \<and>
         (body \<noteq> [] \<and> (head_x + fst (direction g), head_y + snd (direction g)) = last body
          \<longrightarrow> update now g = Some (Inr (g\<lparr>last_update := now, game_over := True\<rparr>))) \<and>
         (\<forall>g'. update now g = Some (Inr g') \<longrightarrow>
            game_over g' =
              (head_x + fst (direction g) < 0 \<or> head_x + fst (direction g) \<ge> width \<or>
               head_y + snd (direction g) < 0 \<or> head_y + snd (direction g) \<ge> height \<or>
               (head_x + fst (direction g), head_y + snd (direction g)) \<in> set body))"
proof -
  have ne: "snake g \<noteq> []" using assms(3) by simp
  have c: "collides g \<longleftrightarrow>
      (head_x + fst (direction g) < 0 \<or> head_x + fst (direction g) \<ge> width \<or>
       head_y + snd (direction g) < 0 \<or> head_y + snd (direction g) \<ge> height \<or>
       (head_x + fst (direction g), head_y + snd (direction g)) \<in> set body)"
    using assms(3) by (simp add: collides_def new_head_of_def)
  have hit: "update now g = Some (Inr (g\<lparr>last_update := now, game_over := True\<rparr>))"
    if "(head_x + fst (direction g), head_y + snd (direction g)) \<in> set body"
    using update_collide [OF assms(1,2) ne] c that by simp
  have tail: "update now g = Some (Inr (g\<lparr>last_update := now, game_over := True\<rparr>))"
    if "body \<noteq> []" "(head_x + fst (direction g), head_y + snd (direction g)) = last body"
    using hit that by simp
  have over: "game_over g' = collides g" if r: "update now g = Some (Inr g')" for g'
  proof (cases "collides g")
    case True
    then show ?thesis using update_collide [OF assms(1,2) ne True] r by auto
  next
    case False
    show ?thesis
    proof (cases "new_head_of g = food g")
      case True
      then show ?thesis
        using update_eat [OF assms(1,2) ne False True] r False assms(1)
        by (auto split: option.splits)
    next
      case nf: False
      then show ?thesis
        using update_move [OF assms(1,2) ne False nf] r False assms(1) by auto
    qed
  qed
  show ?thesis using hit tail over c by blast
qed

theorem body_collision_witness:
  "\<not> game_over square \<and> game_speed \<le> 1 - last_update square \<and>
   snake square = (320, 240) # [(340, 240), (340, 260), (320, 260)] \<and>
   update 1 square = Some (Inr (square\<lparr>last_update := 1, game_over := True\<rparr>))"
proof -
  have a: "\<not> game_over square" by (simp add: square_def)
  have b: "game_speed \<le> 1 - last_update square" by (simp add: square_def game_speed_def)
  have c: "snake square = (320, 240) # [(340, 240), (340, 260), (320, 260)]"
    by (simp add: square_def)
  have d: "(320 + fst (direction square), 240 + snd (direction square))
      \<in> set [(340, 240), (340, 260), (320, 260)]"
    by (simp add: square_def)
  show ?thesis using a b c d body_collision [OF a b c] by blast
qed

text \<open>
  C1 as stated fails: the snake \<open>square\<close> moves its head into the cell of its tail,
  eats nothing, and the tick ends the game.
\<close>

theorem tail_cell_collision:
  "\<not> game_over square \<and> last (snake square) = (320, 260) \<and> food square \<noteq> (320, 260) \<and>
   hd (snake square) = (320, 240) \<and> direction square = (0, 20) \<and>
   update 1 square = Some (Inr (square\<lparr>last_update := 1, game_over := True\<rparr>))"
  by (simp add: square_def update_def game_speed_def width_def height_def)

section \<open>Rate limit\<close>

text \<open>
  C4, as the code has it: calls of \<open>update\<close> whose clock reads are all less than
  \<open>game_speed\<close> after \<open>last_update\<close> leave the state as it is, however many they are.
  In a running game a call at or after that boundary is not a no-op: when it returns it
  has set \<open>last_update\<close> to its clock read and has either ended the game with the snake
  in place or moved the head by one step of the direction, and further calls within
  \<open>game_speed\<close> of it change nothing. It returns whenever it does not eat, and when it
  eats as soon as the food loop draws a free cell; when it eats and no draw is free, it
  never returns.
\<close>


theorem tick_rate_limit:
  "((\<forall>t\<in>set ts. t - last_update g < game_speed) \<longrightarrow> updates ts g = Some (Inr g)) \<and>
   (\<not> game_over g \<and> snake g = (head_x, head_y) # body \<and> game_speed \<le> now - last_update g \<longrightarrow>
      update now g \<noteq> Some (Inr g) \<and>
      (\<forall>g'. update now g = Some (Inr g') \<longrightarrow>
         last_update g' = now \<and>
         (game_over g' \<and> snake g' = snake g \<or>
          \<not> game_over g' \<and>
          (snake g' = (head_x + fst (direction g), head_y + snd (direction g)) # snake g \<or>
           snake g' = (head_x + fst (direction g), head_y + snd (direction g)) # butlast (snake g))) \<and>
         (\<forall>ts'. (\<forall>t\<in>set ts'. t - now < game_speed) \<longrightarrow> updates ts' g' = Some (Inr g'))) \<and>
      ((head_x + fst (direction g), head_y + snd (direction g)) \<noteq> food g \<or>
       free_draw (food g # snake g) (rng g) \<longrightarrow> (\<exists>g'. update now g = Some (Inr g'))) \<and>
      ((head_x + fst (direction g), head_y + snd (direction g)) = food g \<and>
       0 \<le> fst (food g) \<and> fst (food g) < width \<and> 0 \<le> snd (food g) \<and> snd (food g) < height \<and>
       food g \<notin> set body \<and> \<not> free_draw (food g # snake g) (rng g)
       \<longrightarrow> update now g = None))"
proof (intro conjI impI)
  assume "\<forall>t\<in>set ts. t - last_update g < game_speed"
  then show "updates ts g = Some (Inr g)" by (rule updates_early)
next
  assume a: "\<not> game_over g \<and> snake g = (head_x, head_y) # body \<and> game_speed \<le> now - last_update g"
  then have run: "\<not> game_over g" and due: "game_speed \<le> now - last_update g"
    and sn: "snake g = (head_x, head_y) # body" and ne: "snake g \<noteq> []"
    by simp_all
  have nh: "new_head_of g = (head_x + fst (direction g), head_y + snd (direction g))"
    using sn by (simp add: new_head_of_def)
  have step: "last_update g' = now \<and>
         (game_over g' \<and> snake g' = snake g \<or>
          \<not> game_over g' \<and> (snake g' = new_head_of g # snake g \<or>
                             snake g' = new_head_of g # butlast (snake g)))"
    if r: "update now g = Some (Inr g')" for g'
  proof (cases "collides g")
    case True
    then show ?thesis using update_collide [OF run due ne True] r by auto
  next
    case False
    show ?thesis
    proof (cases "new_head_of g = food g")
      case True
      then show ?thesis
        using update_eat [OF run due ne False True] r run by (auto split: option.splits)
    next
      case nf: False
      then show ?thesis using update_move [OF run due ne False nf] r run by auto
    qed
  qed
  have pos: "last_update g \<noteq> now" using due by (auto simp: game_speed_def)
  show "update now g \<noteq> Some (Inr g)" using step [of g] pos by blast
  show "\<forall>g'. update now g = Some (Inr g') \<longrightarrow>
         last_update g' = now \<and>
         (game_over g' \<and> snake g' = snake g \<or>
          \<not> game_over g' \<and>
          (snake g' = (head_x + fst (direction g), head_y + snd (direction g)) # snake g \<or>
           snake g' = (head_x + fst (direction g), head_y + snd (direction g)) # butlast (snake g))) \<and>
         (\<forall>ts'. (\<forall>t\<in>set ts'. t - now < game_speed) \<longrightarrow> updates ts' g' = Some (Inr g'))"
  proof (intro allI impI)
    fix g' assume r: "update now g = Some (Inr g')"
    have lu: "last_update g' = now" using step [OF r] by simp
    have "\<forall>ts'. (\<forall>t\<in>set ts'. t - now < game_speed) \<longrightarrow> updates ts' g' = Some (Inr g')"
      using updates_early [of _ g'] lu by simp
    then show "last_update g' = now \<and>
         (game_over g' \<and> snake g' = snake g \<or>
          \<not> game_over g' \<and>
          (snake g' = (head_x + fst (direction g), head_y + snd (direction g)) # snake g \<or>
           snake g' = (head_x + fst (direction g), head_y + snd (direction g)) # butlast (snake g))) \<and>
         (\<forall>ts'. (\<forall>t\<in>set ts'. t - now < game_speed) \<longrightarrow> updates ts' g' = Some (Inr g'))"
      using step [OF r] nh by simp
  qed
  {
    assume f: "(head_x + fst (direction g), head_y + snd (direction g)) \<noteq> food g \<or>
       free_draw (food g # snake g) (rng g)"
    show "\<exists>g'. update now g = Some (Inr g')"
    proof (cases "collides g")
      case True
      then show ?thesis using update_collide [OF run due ne True] by simp
    next
      case False
      show ?thesis
      proof (cases "new_head_of g = food g")
        case True
        then have "free_draw (food g # snake g) (rng g)" using f nh by simp
        then have "generate_food (food g # snake g) (rng g) \<noteq> None"
          by (simp add: generate_food_None_iff)
        then show ?thesis
          using update_eat [OF run due ne False True] by (auto split: option.splits)
      next
        case nf: False
        then show ?thesis using update_move [OF run due ne False nf] by simp
      qed
    qed
  }
  {
    assume e: "(head_x + fst (direction g), head_y + snd (direction g)) = food g \<and>
       0 \<le> fst (food g) \<and> fst (food g) < width \<and> 0 \<le> snd (food g) \<and> snd (food g) < height \<and>
       food g \<notin> set body \<and> \<not> free_draw (food g # snake g) (rng g)"
    have eats: "new_head_of g = food g" using e nh by simp
    have nc: "\<not> collides g" using e sn eats by (simp add: collides_def)
    have "generate_food (food g # snake g) (rng g) = None"
      using e generate_food_None_iff by blast
    then show "update now g = None"
      using update_eat [OF run due ne nc eats] by simp
  }
qed

theorem tick_rate_limit_witness:
  "last_update start = 0 \<and> 0.11 - last_update start < game_speed \<and>
   updates [0, 0.01, 0.02, 0.03, 0.04, 0.05, 0.06, 0.07, 0.08, 0.09, 0.10, 0.11] start
     = Some (Inr start) \<and>
   \<not> game_over start \<and> snake start = (320, 240) # [] \<and> game_speed \<le> 0.13 - last_update start \<and>
   update 0.13 start \<noteq> Some (Inr start) \<and>
   (\<exists>g'. update 0.13 start = Some (Inr g') \<and> last_update g' = 0.13 \<and> \<not> game_over g' \<and>
      snake g' = [(340, 240)])"
proof -
  have a: "\<forall>t\<in>set [0, 0.01, 0.02, 0.03, 0.04, 0.05, 0.06, 0.07, 0.08, 0.09, 0.10, 0.11].
      t - last_update start < game_speed"
    by (simp add: start_def game_speed_def)
  have b: "\<not> game_over start \<and> snake start = (320, 240) # [] \<and>
      game_speed \<le> 0.13 - last_update start"
    by (simp add: start_def game_speed_def)
  have c: "(320 + fst (direction start), 240 + snd (direction start)) \<noteq> food start"
    by (simp add: start_def)
  have d: "last_update start = 0" "0.11 - last_update start < game_speed"
    "direction start = (20, 0)"
    by (simp_all add: start_def game_speed_def)
  note t = tick_rate_limit [of "[0, 0.01, 0.02, 0.03, 0.04, 0.05, 0.06, 0.07, 0.08, 0.09, 0.10, 0.11]"
        start 320 240 "[]" "0.13"]
  obtain g' where g': "update 0.13 start = Some (Inr g')"
    using t b c by blast
  have "last_update g' = 0.13 \<and> (game_over g' \<and> snake g' = snake start \<or>
      \<not> game_over g' \<and> (snake g' = (320 + fst (direction start), 240 + snd (direction start)) # snake start \<or>
        snake g' = (320 + fst (direction start), 240 + snd (direction start)) # butlast (snake start)))"
    using t b g' by blast
  moreover have "\<not> game_over g'"
    using g' by (auto simp: update_def start_def game_speed_def width_def height_def)
  ultimately have "last_update g' = 0.13 \<and> \<not> game_over g' \<and> snake g' = [(340, 240)]"
    using g' by (auto simp: update_def start_def game_speed_def width_def height_def)
  then show ?thesis
    using a b d g' t by blast
qed

text \<open>
  C4 as stated fails: \<open>last_cell\<close> is a running game and the call at clock read 1 is
  past the boundary, yet it performs no transition: it eats the food on the last free
  cell and never returns.
\<close>

theorem due_tick_never_returns:
  "\<not> game_over last_cell \<and> game_speed \<le> 1 - last_update last_cell \<and>
   update 1 last_cell = None"
  by (simp add: last_cell_update) (simp add: last_cell_def game_speed_def)

section \<open>Growth\<close>

text \<open>
  C5, as the code has it: in a running game, a due tick that moves the head onto the food
  cell returns exactly when the food loop draws a cell that is free of the new snake;
  it then leaves a snake that is one segment longer (the food cell put in front), a score
  that is 10 higher and a food cell that is not on the new snake. When no draw is free,
  the tick never returns.
\<close>


theorem growth_law:
  assumes "\<not> game_over g" and "game_speed \<le> now - last_update g"
    and "snake g = (head_x, head_y) # body"
    and "(head_x + fst (direction g), head_y + snd (direction g)) = food g"
    and "0 \<le> fst (food g)" and "fst (food g) < width"
    and "0 \<le> snd (food g)" and "snd (food g) < height"
    and "food g \<notin> set body"
  shows "(free_draw (food g # snake g) (rng g) \<longrightarrow> (\<exists>g'. update now g = Some (Inr g'))) \<and>
         (\<not> free_draw (food g # snake g) (rng g) \<longrightarrow> update now g = None) \<and>
         (\<forall>g'. update now g = Some (Inr g') \<longrightarrow>
            snake g' = food g # snake g \<and>
            length (snake g') = length (snake g) + 1 \<and>
            score g' = score g + 10 \<and>
            food g' \<notin> set (snake g') \<and>
            \<not> game_over g')"
proof -
  have ne: "snake g \<noteq> []" using assms(3) by simp
  have nh: "new_head_of g = food g" using assms(3,4) by (simp add: new_head_of_def)
  have nc: "\<not> collides g" using assms(3,5-9) nh by (simp add: collides_def)
  note eat = update_eat [OF assms(1,2) ne nc nh]
  have 1: "\<exists>g'. update now g = Some (Inr g')" if "free_draw (food g # snake g) (rng g)"
  proof -
    have "generate_food (food g # snake g) (rng g) \<noteq> None"
      using that by (simp add: generate_food_None_iff)
    then show ?thesis using eat by (auto split: option.splits)
  qed
  have 2: "update now g = None" if "\<not> free_draw (food g # snake g) (rng g)"
  proof -
    have "generate_food (food g # snake g) (rng g) = None"
      using that generate_food_None_iff by blast
    then show ?thesis using eat by simp
  qed
  have 3: "snake g' = food g # snake g \<and> length (snake g') = length (snake g) + 1 \<and>
            score g' = score g + 10 \<and> food g' \<notin> set (snake g') \<and> \<not> game_over g'"
    if r: "update now g = Some (Inr g')" for g'
  proof -
    obtain f rs' where gf: "generate_food (food g # snake g) (rng g) = Some (f, rs')"
      and g': "g' = g\<lparr>last_update := now, snake := food g # snake g, score := score g + 10,
                       food := f, rng := rs'\<rparr>"
      using eat r by (auto split: option.splits)
    have "f \<notin> set (food g # snake g)"
      using generate_food_returned [OF gf] by auto
    then show ?thesis using g' assms(1) by simp
  qed
  show ?thesis using 1 2 3 by blast
qed

theorem growth_law_witness:
  "\<not> game_over fed \<and> game_speed \<le> 1 - last_update fed \<and> snake fed = (320, 240) # [] \<and>
   (320 + fst (direction fed), 240 + snd (direction fed)) = food fed \<and>
   free_draw (food fed # snake fed) (rng fed) \<and>
   (\<exists>g'. update 1 fed = Some (Inr g') \<and> length (snake g') = length (snake fed) + 1 \<and>
      score g' = score fed + 10 \<and> food g' \<notin> set (snake g'))"
proof -
  have a: "\<not> game_over fed" by (simp add: fed_def)
  have b: "game_speed \<le> 1 - last_update fed" by (simp add: fed_def game_speed_def)
  have c: "snake fed = (320, 240) # []" by (simp add: fed_def)
  have d: "(320 + fst (direction fed), 240 + snd (direction fed)) = food fed"
    by (simp add: fed_def)
  have e: "0 \<le> fst (food fed)" "fst (food fed) < width" "0 \<le> snd (food fed)"
    "snd (food fed) < height" "food fed \<notin> set []"
    by (simp_all add: fed_def width_def height_def)
  have "(0, 0) \<notin> set (food fed # snake fed)" by (simp add: fed_def)
  then have f: "free_draw (food fed # snake fed) (rng fed)"
    using free_draw_sconst0 by (simp add: fed_def)
  show ?thesis
    using a b c d f growth_law [OF a b c d e] by blast
qed

text \<open>
  C5 as stated fails: in the running game \<open>last_cell\<close> the due tick moves the head from
  \<open>(0, 20)\<close> onto the food cell \<open>(0, 0)\<close>, which is free, and never returns: there is
  no state after the tick, and no cell left for the food.
\<close>

theorem eating_last_cell_never_returns:
  "\<not> game_over last_cell \<and> game_speed \<le> 1 - last_update last_cell \<and>
   hd (snake last_cell) = (0, 20) \<and> direction last_cell = (0, - 20) \<and>
   food last_cell = (0, 0) \<and> (0, 0) \<notin> set (snake last_cell) \<and>
   update 1 last_cell = None"
proof -
  have "hd (snake last_cell) = (0, 20)"
    by (simp only: last_cell_snake list.sel)
  moreover have "\<not> game_over last_cell \<and> game_speed \<le> 1 - last_update last_cell \<and>
      direction last_cell = (0, - 20) \<and> food last_cell = (0, 0)"
    by (simp add: last_cell_def game_speed_def)
  ultimately show ?thesis
    using last_cell_food_free last_cell_update by simp
qed

section \<open>Game over and restart\<close>

lemma hand_step_throttled:
  "fst h - last_direction_change g \<le> direction_cooldown \<Longrightarrow> hand_step h g = Inr g"
  by (simp add: hand_step_def)

lemma hand_step_stamp:
  "hand_step h g = Inr g' \<Longrightarrow>
   g' = g \<or> (direction g' \<noteq> direction g \<and> last_direction_change g' = fst h \<and>
             direction_cooldown < fst h - last_direction_change g)"
  by (auto simp: hand_step_def Let_def split: if_splits sum.splits)

lemma update_keeps_stamp:
  "update now g = Some (Inr g') \<Longrightarrow> last_direction_change g' = last_direction_change g"
  by (auto simp: update_def Let_def split: if_splits list.splits prod.splits option.splits)

text \<open>
  C8: once \<open>game_over\<close> is set, any number of ticks and any frames, with or without
  hands, return with the state exactly as it was, so the game stays over; \<open>reset_game\<close>
  is the operation that clears the flag (it returns as soon as the food loop draws a cell
  other than the centre).
\<close>

theorem over_is_absorbing:
  assumes "game_over g"
  shows "updates ts g = Some (Inr g) \<and>
         recv hands now g = Some (Inr g) \<and>
         frames fs g = Some (Inr g) \<and>
         (\<forall>g'. reset_game now g = Some g' \<longrightarrow> \<not> game_over g') \<and>
         (free_draw [(320, 240)] (rng g) \<longrightarrow> (\<exists>g'. reset_game now g = Some g'))"
proof -
  have "\<forall>g'. reset_game now g = Some g' \<longrightarrow> \<not> game_over g'"
    by (auto simp: reset_game_result split: option.splits)
  moreover have "free_draw [(320, 240)] (rng g) \<longrightarrow> (\<exists>g'. reset_game now g = Some g')"
    by (simp add: reset_game_returns)
  ultimately show ?thesis
    using updates_over [OF assms] recv_over [OF assms] frames_over [OF assms] by simp
qed

theorem over_is_absorbing_witness:
  "game_over crashed \<and>
   updates [1.2, 1.4, 5] crashed = Some (Inr crashed) \<and>
   recv [(2, (600, 240))] 2 crashed = Some (Inr crashed) \<and>
   free_draw [(320, 240)] (rng crashed) \<and>
   (\<exists>g'. reset_game 3 crashed = Some g' \<and> \<not> game_over g')"
proof -
  have a: "game_over crashed" by (simp add: crashed_def)
  have "((0, 0) :: pos) \<notin> set [(320, 240)]" by simp
  then have f: "free_draw [(320, 240)] (rng crashed)"
    using free_draw_sconst0 by (simp add: crashed_def)
  show ?thesis
    using a f over_is_absorbing [OF a, of "[1.2, 1.4, 5]" "[(2, (600, 240))]" 2 "[]"]
      over_is_absorbing [OF a, of "[]" "[]" 3 "[]"]
    by blast
qed

text \<open>
  C10: \<open>reset_game\<close> leaves \<open>last_direction_change\<close> as it was, so a hand seen within
  the cooldown of a change made in the previous game is ignored after the restart. The
  timestamp is set by the constructor, never by a tick, and by the frame callback only
  together with a change of direction.
\<close>

theorem reset_keeps_cooldown:
  "(\<forall>g'. reset_game now g = Some g' \<longrightarrow>
      last_direction_change g' = last_direction_change g \<and>
      (\<forall>h. fst h - last_direction_change g \<le> direction_cooldown \<longrightarrow> hand_step h g' = Inr g')) \<and>
   (\<forall>g'. new_game rs t0 t1 t2 = Some g' \<longrightarrow> last_direction_change g' = t1) \<and>
   (\<forall>g'. update now g = Some (Inr g') \<longrightarrow> last_direction_change g' = last_direction_change g) \<and>
   (\<forall>h g'. hand_step h g = Inr g' \<longrightarrow>
      last_direction_change g' = last_direction_change g \<or>
      direction g' \<noteq> direction g \<and> last_direction_change g' = fst h)"
proof (intro conjI allI impI)
  fix g' assume r: "reset_game now g = Some g'"
  then show s: "last_direction_change g' = last_direction_change g"
    by (auto simp: reset_game_result split: option.splits)
  fix h :: "real \<times> pos"
  assume "fst h - last_direction_change g \<le> direction_cooldown"
  then show "hand_step h g' = Inr g'"
    using s hand_step_throttled [of h g'] by simp
next
  fix g' assume "new_game rs t0 t1 t2 = Some g'"
  then show "last_direction_change g' = t1"
    by (auto simp: new_game_def split: option.splits)
next
  fix g' assume "update now g = Some (Inr g')"
  then show "last_direction_change g' = last_direction_change g"
    by (rule update_keeps_stamp)
next
  fix h g' assume "hand_step h g = Inr g'"
  then show "last_direction_change g' = last_direction_change g \<or>
      direction g' \<noteq> direction g \<and> last_direction_change g' = fst h"
    using hand_step_stamp [of h g g'] by auto
qed

theorem reset_keeps_cooldown_witness:
  "reset_game 1.05 (crashed\<lparr>last_direction_change := 1\<rparr>) = Some restarted \<and>
   last_direction_change restarted = 1 \<and>
   hand_step (1.1, (320, 100)) restarted = Inr restarted \<and>
   hand_step (1.2, (320, 100)) restarted
     = Inr (restarted\<lparr>direction := (0, - 20), last_direction_change := 1.2\<rparr>)"
proof -
  have r: "reset_game 1.05 (crashed\<lparr>last_direction_change := 1\<rparr>) = Some restarted"
    by (simp add: reset_game_result crashed_def restarted_def generate_food_sconst0)
  have t: "fst (1.1 :: real, (320, 100) :: pos)
      - last_direction_change (crashed\<lparr>last_direction_change := 1\<rparr>) \<le> direction_cooldown"
    by (simp add: direction_cooldown_def)
  have late: "hand_step (1.2, (320, 100)) restarted
     = Inr (restarted\<lparr>direction := (0, - 20), last_direction_change := 1.2\<rparr>)"
    by (simp add: hand_step_def get_hand_direction_def restarted_def direction_cooldown_def
        dead_zone_def grid_size_def)
  show ?thesis
    using r t late
      reset_keeps_cooldown [of "1.05" "crashed\<lparr>last_direction_change := 1\<rparr>" "sconst 0" 0 0 0]
    by auto
qed

section \<open>Invariants of the reachable states\<close>

lemma inv_reset: "reset_game now g = Some g' \<Longrightarrow> game_inv g'"
  by (auto simp: reset_game_result game_inv_def in_grid_def cardinal_def width_def height_def
      grid_size_def split: option.splits)

lemma inv_new: "new_game rs t0 t1 t2 = Some g \<Longrightarrow> game_inv g"
proof -
  assume "new_game rs t0 t1 t2 = Some g"
  then obtain g0 where r: "reset_game t0 (fresh rs) = Some g0"
    and g: "g = g0\<lparr>last_direction_change := t1, last_update := t2\<rparr>"
    by (auto simp: new_game_def split: option.splits)
  have "game_inv g0" using r by (rule inv_reset)
  then show ?thesis using g by (simp add: game_inv_def)
qed

lemma new_head_in_grid:
  assumes "snake g \<noteq> []" and "in_grid (hd (snake g))" and "cardinal (direction g)"
    and "\<not> collides g"
  shows "in_grid (new_head_of g)"
proof -
  obtain x y where h: "hd (snake g) = (x, y)" by (cases "hd (snake g)")
  have al: "x mod 20 = 0" "y mod 20 = 0"
    using assms(2) h by (simp_all add: in_grid_def grid_size_def)
  have b: "0 \<le> fst (new_head_of g)" "fst (new_head_of g) < width"
    "0 \<le> snd (new_head_of g)" "snd (new_head_of g) < height"
    using assms(4) by (auto simp: collides_def)
  have "fst (new_head_of g) mod 20 = 0 \<and> snd (new_head_of g) mod 20 = 0"
    using assms(3) al h
    by (auto simp: cardinal_def new_head_of_def grid_size_def mod_add_left_eq [symmetric, of _ 20]
        simp del: mod_add_left_eq)
  then show ?thesis using b by (simp add: in_grid_def grid_size_def)
qed

lemma new_head_fresh:
  assumes "snake g \<noteq> []" and "cardinal (direction g)" and "\<not> collides g"
  shows "new_head_of g \<notin> set (snake g)"
proof -
  have "new_head_of g \<noteq> hd (snake g)"
    using assms(2)
    by (cases "hd (snake g)") (auto simp: cardinal_def new_head_of_def grid_size_def)
  moreover have "new_head_of g \<notin> set (tl (snake g))"
    using assms(3) by (simp add: collides_def)
  ultimately show ?thesis using assms(1) by (cases "snake g") auto
qed

lemma inv_update:
  assumes inv: "game_inv g" and r: "update now g = Some (Inr g')"
  shows "game_inv g'"
proof (cases "game_over g \<or> now - last_update g < game_speed")
  case True
  then have "g' = g" using r update_over [of g now] update_early [of now g] by auto
  then show ?thesis using inv by simp
next
  case False
  then have run: "\<not> game_over g" and due: "game_speed \<le> now - last_update g" by simp_all
  have ne: "snake g \<noteq> []" and grid: "\<forall>p\<in>set (snake g). in_grid p" and dis: "distinct (snake g)"
    and car: "cardinal (direction g)" and sc: "score g = 10 * (int (length (snake g)) - 1)"
    using inv by (simp_all add: game_inv_def)
  show ?thesis
  proof (cases "collides g")
    case True
    then have "g' = g\<lparr>last_update := now, game_over := True\<rparr>"
      using update_collide [OF run due ne True] r by simp
    then show ?thesis using inv by (simp add: game_inv_def)
  next
    case nc: False
    have hg: "in_grid (hd (snake g))" using ne grid by simp
    have nhg: "in_grid (new_head_of g)" by (rule new_head_in_grid [OF ne hg car nc])
    have nhf: "new_head_of g \<notin> set (snake g)" by (rule new_head_fresh [OF ne car nc])
    show ?thesis
    proof (cases "new_head_of g = food g")
      case True
      then obtain f rs' where
        g': "g' = g\<lparr>last_update := now, snake := food g # snake g, score := score g + 10,
                     food := f, rng := rs'\<rparr>"
        using update_eat [OF run due ne nc True] r by (auto split: option.splits)
      show ?thesis
        using g' True nhg nhf grid dis car sc by (simp add: game_inv_def)
    next
      case nf: False
      have g': "g' = g\<lparr>last_update := now, snake := new_head_of g # butlast (snake g)\<rparr>"
        using update_move [OF run due ne nc nf] r by simp
      have sub: "set (butlast (snake g)) \<subseteq> set (snake g)"
        by (auto dest: in_set_butlastD)
      have len: "int (length (butlast (snake g))) = int (length (snake g)) - 1"
        using ne by (cases "snake g") simp_all
      have d: "distinct (butlast (snake g))" using dis by (rule distinct_butlast)
      show ?thesis
        unfolding game_inv_def using g' nhg nhf grid d car sc sub len by auto
    qed
  qed
qed

lemma get_hand_direction_cardinal:
  "cardinal (direction g) \<Longrightarrow> get_hand_direction finger g = Inr d \<Longrightarrow> cardinal d"
  by (auto simp: get_hand_direction_def cardinal_def Let_def split: list.splits prod.splits if_splits)

lemma inv_hand_step: "game_inv g \<Longrightarrow> hand_step h g = Inr g' \<Longrightarrow> game_inv g'"
  by (auto simp: hand_step_def game_inv_def Let_def split: if_splits sum.splits
      dest: get_hand_direction_cardinal)

lemma inv_hand_loop: "game_inv g \<Longrightarrow> hand_loop hs g = Inr g' \<Longrightarrow> game_inv g'"
proof (induction hs arbitrary: g)
  case Nil
  then show ?case by simp
next
  case (Cons h hs)
  then show ?case by (auto split: sum.splits dest: inv_hand_step)
qed

lemma inv_recv:
  assumes "game_inv g" and "recv hands now g = Some (Inr g')"
  shows "game_inv g'"
proof -
  obtain g1 where g1: "(if hands \<noteq> [] \<and> \<not> game_over g then hand_loop hands g else Inr g) = Inr g1"
    and u: "update now g1 = Some (Inr g')"
    using assms(2) by (auto simp: recv_def split: sum.splits)
  have "game_inv g1"
    using g1 assms(1) inv_hand_loop [of g hands g1] by (auto split: if_splits)
  then show ?thesis using u by (rule inv_update)
qed

lemma reachable_inv: "reachable g \<Longrightarrow> game_inv g"
proof (induction rule: reachable.induct)
  case (r_new rs t0 t1 t2 g)
  then show ?case by (rule inv_new)
next
  case (r_reset g now g')
  then show ?case using inv_reset by blast
next
  case (r_update g now g')
  then show ?case using inv_update by blast
next
  case (r_recv g hands now g')
  then show ?case using inv_recv by blast
qed

lemma reachable_updates:
  "reachable g \<Longrightarrow> updates ts g = Some (Inr g') \<Longrightarrow> reachable g'"
proof (induction ts arbitrary: g)
  case Nil
  then show ?case by simp
next
  case (Cons t ts)
  then obtain g1 where u: "update t g = Some (Inr g1)" and rest: "updates ts g1 = Some (Inr g')"
    by (auto split: option.splits sum.splits)
  have "reachable g1" using Cons.prems(1) u by (rule r_update)
  then show ?case using rest by (rule Cons.IH)
qed

lemma reachable_start: "reachable start"
  using new_game_start by (rule r_new)

lemma food_draw_17_12: "food_draw (17 ## 12 ## sconst 0) = ((340, 240), sconst 0)"
  by (simp add: food_draw_def randint_def width_def height_def grid_size_def)

lemma new_game_fed: "new_game (17 ## 12 ## sconst 0) 0 0 0 = Some fed"
proof -
  have "generate_food [(320, 240)] (17 ## 12 ## sconst 0) = Some ((340, 240), sconst 0)"
    by (subst generate_food.simps) (simp add: food_draw_17_12)
  then show ?thesis
    by (simp add: new_game_def reset_game_result fresh_def fed_def)
qed

lemma reachable_fed: "reachable fed"
  using new_game_fed by (rule r_new)

lemma update_fed: "update 1 fed = Some (Inr grown)"
proof -
  have "generate_food [(340, 240), (320, 240)] (sconst 0) = Some ((0, 0), sconst 0)"
    by (rule generate_food_sconst0) simp
  then show ?thesis
    by (simp add: update_def fed_def grown_def game_speed_def width_def height_def)
qed

lemma reachable_grown: "reachable grown"
  using reachable_fed update_fed by (rule r_update)

text \<open>
  C7: in every reachable state, whether the game runs or is over, every segment of the
  snake is inside the board, \<open>0 \<le> x < width\<close> and \<open>0 \<le> y < height\<close>, with both
  coordinates multiples of \<open>grid_size\<close>; and while the game runs no two segments are on
  the same cell.
\<close>

theorem snake_stays_on_grid:
  "reachable g \<Longrightarrow>
   (\<forall>p\<in>set (snake g). 0 \<le> fst p \<and> fst p < width \<and> 0 \<le> snd p \<and> snd p < height \<and>
      fst p mod grid_size = 0 \<and> snd p mod grid_size = 0) \<and>
   (\<not> game_over g \<longrightarrow> distinct (snake g))"
proof -
  assume "reachable g"
  then have "game_inv g" by (rule reachable_inv)
  then show ?thesis by (simp add: game_inv_def in_grid_def)
qed

theorem snake_stays_on_grid_witness:
  "reachable grown \<and> \<not> game_over grown \<and> distinct (snake grown) \<and>
   snake grown = [(340, 240), (320, 240)] \<and>
   (340 :: int) < width \<and> (240 :: int) < height \<and>
   (340 :: int) mod grid_size = 0 \<and> (240 :: int) mod grid_size = 0"
proof -
  have a: "\<not> game_over grown" "snake grown = [(340, 240), (320, 240)]"
    by (simp_all add: grown_def)
  show ?thesis
    using a reachable_grown snake_stays_on_grid [OF reachable_grown] by auto
qed

text \<open>
  C9: in every reachable state the score is 10 times the length of the snake minus one,
  hence a multiple of 10 that is not negative.
\<close>

theorem score_follows_length:
  "reachable g \<Longrightarrow>
   score g = 10 * (int (length (snake g)) - 1) \<and> 0 \<le> score g \<and> score g mod 10 = 0"
proof -
  assume "reachable g"
  then have "game_inv g" by (rule reachable_inv)
  then have "score g = 10 * (int (length (snake g)) - 1)" and "snake g \<noteq> []"
    by (simp_all add: game_inv_def)
  moreover from this(2) have "1 \<le> int (length (snake g))"
    by (cases "snake g") simp_all
  ultimately show ?thesis by simp
qed

theorem score_follows_length_witness:
  "reachable fed \<and> score fed = 10 * (int (length (snake fed)) - 1) \<and>
   update 1 fed = Some (Inr grown) \<and> reachable grown \<and>
   score grown = 10 * (int (length (snake grown)) - 1)"
  using reachable_fed reachable_grown update_fed
    score_follows_length [OF reachable_fed] score_follows_length [OF reachable_grown]
  by simp

section \<open>Reversal\<close>

text \<open>What the guard of the resolver gives: its answer is never the negation of the
  direction that the object holds when it is called.\<close>

lemma get_hand_direction_cases:
  "get_hand_direction finger g = Inr d \<Longrightarrow>
   d = direction g \<or> (fst d * - 1, snd d * - 1) \<noteq> direction g"
  unfolding get_hand_direction_def Let_def
  by (simp split: list.splits prod.splits if_splits)

lemma get_hand_direction_no_reverse:
  assumes "direction g \<noteq> (0, 0)" and "get_hand_direction finger g = Inr d"
  shows "d \<noteq> (- fst (direction g), - snd (direction g))"
  using get_hand_direction_cases [OF assms(2)] assms(1)
  by (cases "direction g") auto

lemma recv_no_hands: "recv [] now g = update now g"
  by (simp add: recv_def)

lemma frame1: "recv [] 0.13 start = Some (Inr (start\<lparr>snake := [(340, 240)], last_update := 0.13\<rparr>))"
  by (simp add: recv_def update_def start_def game_speed_def width_def height_def)

lemma frame2:
  "recv [(0.16, (340, 100))] 0.16 (start\<lparr>snake := [(340, 240)], last_update := 0.13\<rparr>)
   = Some (Inr (start\<lparr>snake := [(340, 240)], last_update := 0.13, direction := (0, - 20),
        last_direction_change := 0.16\<rparr>))"
  by (simp add: recv_def hand_step_def get_hand_direction_def update_def start_def
      game_speed_def direction_cooldown_def dead_zone_def grid_size_def)

lemma frame3:
  "recv [(0.24, (100, 240))] 0.24 (start\<lparr>snake := [(340, 240)], last_update := 0.13,
        direction := (0, - 20), last_direction_change := 0.16\<rparr>)
   = Some (Inr (start\<lparr>snake := [(340, 240)], last_update := 0.13, direction := (0, - 20),
        last_direction_change := 0.16\<rparr>))"
  by (simp add: recv_def hand_step_def update_def start_def
      game_speed_def direction_cooldown_def)

lemma frame4:
  "recv [(0.32, (100, 240))] 0.32 (start\<lparr>snake := [(340, 240)], last_update := 0.13,
        direction := (0, - 20), last_direction_change := 0.16\<rparr>)
   = Some (Inr (start\<lparr>snake := [(320, 240)], last_update := 0.32, direction := (- 20, 0),
        last_direction_change := 0.32\<rparr>))"
  by (simp add: recv_def hand_step_def get_hand_direction_def update_def start_def
      game_speed_def direction_cooldown_def dead_zone_def grid_size_def width_def height_def)

lemma neck1:
  "recv [] 1.13 grown
   = Some (Inr (grown\<lparr>snake := [(360, 240), (340, 240)], last_update := 1.13\<rparr>))"
  by (simp add: recv_def update_def grown_def game_speed_def width_def height_def)

lemma neck2:
  "recv [(1.16, (360, 100))] 1.16 (grown\<lparr>snake := [(360, 240), (340, 240)], last_update := 1.13\<rparr>)
   = Some (Inr (grown\<lparr>snake := [(360, 240), (340, 240)], last_update := 1.13,
        direction := (0, - 20), last_direction_change := 1.16\<rparr>))"
  by (simp add: recv_def hand_step_def get_hand_direction_def update_def grown_def
      game_speed_def direction_cooldown_def dead_zone_def grid_size_def)

lemma neck3:
  "recv [(1.32, (100, 240))] 1.32 (grown\<lparr>snake := [(360, 240), (340, 240)], last_update := 1.13,
        direction := (0, - 20), last_direction_change := 1.16\<rparr>)
   = Some (Inr (grown\<lparr>snake := [(360, 240), (340, 240)], last_update := 1.32,
        direction := (- 20, 0), last_direction_change := 1.32, game_over := True\<rparr>))"
  by (simp add: recv_def hand_step_def get_hand_direction_def update_def grown_def
      game_speed_def direction_cooldown_def dead_zone_def grid_size_def width_def height_def)

text \<open>
  C3 fails on the code. The game starts heading right. The tick at 0.13 moves the head
  right to \<open>(340, 240)\<close>. The frame at 0.16 turns the direction up, and neither its tick
  nor the tick at 0.24 is due, so no tick applies it. The frame at 0.32 is past the
  cooldown; the resolver compares left with the held direction (up), accepts it, and the
  tick at 0.32 moves the head left, back to \<open>(320, 240)\<close>: two consecutive ticks that
  act apply a direction and its negation. With the snake \<open>grown\<close> of two segments the
  same frames, one second later, turn the head into its own neck and end the game.
\<close>

theorem reversal_between_ticks:
  "new_game (sconst 0) 0 0 0 = Some start \<and>
   snake start = [(320, 240)] \<and> direction start = (20, 0) \<and>
   frames [([], 0.13)] start
     = Some (Inr (start\<lparr>snake := [(340, 240)], last_update := 0.13\<rparr>)) \<and>
   frames [([], 0.13), ([(0.16, (340, 100))], 0.16), ([(0.24, (100, 240))], 0.24)] start
     = Some (Inr (start\<lparr>snake := [(340, 240)], last_update := 0.13, direction := (0, - 20),
          last_direction_change := 0.16\<rparr>)) \<and>
   frames [([], 0.13), ([(0.16, (340, 100))], 0.16), ([(0.24, (100, 240))], 0.24),
           ([(0.32, (100, 240))], 0.32)] start
     = Some (Inr (start\<lparr>snake := [(320, 240)], last_update := 0.32, direction := (- 20, 0),
          last_direction_change := 0.32\<rparr>)) \<and>
   frames [([], 1.13), ([(1.16, (360, 100))], 1.16), ([(1.32, (100, 240))], 1.32)] grown
     = Some (Inr (grown\<lparr>snake := [(360, 240), (340, 240)], last_update := 1.32,
          direction := (- 20, 0), last_direction_change := 1.32, game_over := True\<rparr>))"
proof -
  have "snake start = [(320, 240)]" "direction start = (20, 0)"
    by (simp_all add: start_def)
  then show ?thesis
    by (simp only: new_game_start frames.simps fst_conv snd_conv frame1 frame2 frame3 frame4
        neck1 neck2 neck3 option.case sum.case simp_thms)
qed

end
